theory Spec2Isabelle
  imports Complex_Main "HOL-Library.Word"
begin

section \<open>Sampling-bias-corrected two-tower training: the numeric core of train.py\<close>

text \<open>
  A shallow embedding of \<^verbatim>\<open>src/embedding/google_tt/train.py\<close>: the hash bucketer, the
  streaming sampling-probability estimator, the logQ-corrected batch softmax, the
  reward-weighted loss, the top-k metrics and the bucket-state part of the training loop.

  Floating-point tensors are modelled over the real numbers: the rounding of float32 and
  float64 is outside this model, and so are overflow and underflow, except in the
  exponential of the batch softmax, where they are within reach. Where a float operation of
  the source leaves the finite numbers without raising (a division by zero, a logarithm
  of a non-positive number), the value is \<open>NonFinite\<close>, which stands for any of
  \<open>inf\<close>, \<open>-inf\<close> and \<open>nan\<close>. A rank-1 tensor is a list, a rank-2 tensor a list
  of rows.
\<close>

subsection \<open>Errors and float results\<close>

datatype error =
    IndexError              \<comment> \<open>numpy: index out of bounds\<close>
  | ValueError              \<comment> \<open>numpy: negative dimension, shape mismatch on assignment\<close>
  | InvalidArgumentError    \<comment> \<open>TensorFlow: a kernel rejects its arguments\<close>
  | AttributeError          \<comment> \<open>Python: attribute access on \<open>None\<close>\<close>
  | UnboundLocalError       \<comment> \<open>Python: a local variable read before assignment\<close>
  | NotModelled             \<comment> \<open>outside this model: it does not say what the source does\<close>

fun and_then :: "error + 'a \<Rightarrow> ('a \<Rightarrow> error + 'b) \<Rightarrow> error + 'b" where
  \<comment> \<open>sequencing: an exception of the first computation ends the whole\<close>
  "and_then (Inl e) f = Inl e"
| "and_then (Inr v) f = f v"

datatype fl = Finite real | NonFinite

definition truediv :: "real \<Rightarrow> real \<Rightarrow> fl" where
  \<comment> \<open>float division \<open>a / b\<close>: no exception, \<open>inf\<close> or \<open>nan\<close> when \<open>b\<close> is zero\<close>
  "truediv a b = (if b = 0 then NonFinite else Finite (a / b))"

definition fl_log :: "real \<Rightarrow> fl" where
  \<comment> \<open>\<open>tf.math.log\<close> of a finite number: \<open>-inf\<close> at zero, \<open>nan\<close> below\<close>
  "fl_log p = (if 0 < p then Finite (ln p) else NonFinite)"


fun fl_mul :: "fl \<Rightarrow> fl \<Rightarrow> fl" where
  "fl_mul (Finite a) (Finite b) = Finite (a * b)"
| "fl_mul _ _ = NonFinite"

fun fl_neg :: "fl \<Rightarrow> fl" where
  "fl_neg (Finite a) = Finite (- a)"
| "fl_neg NonFinite = NonFinite"

fun finite_values :: "fl list \<Rightarrow> real list option" where
  \<comment> \<open>the values of a tensor all of whose entries are finite\<close>
  "finite_values [] = Some []"
| "finite_values (Finite v # xs) = (case finite_values xs of None \<Rightarrow> None | Some vs \<Rightarrow> Some (v # vs))"
| "finite_values (NonFinite # xs) = None"

subsection \<open>numpy integer-array indexing\<close>

text \<open>
  \<^verbatim>\<open>arr[idx]\<close> with an integer index array reads one entry per index, in the order
  of the indices; an index \<open>i\<close> with \<open>-n \<le> i < 0\<close> counts from the end, any other
  index outside \<open>[0, n)\<close> raises IndexError. \<^verbatim>\<open>arr[idx] = vals\<close> writes the values one
  index after the other, so that for a repeated index the last value stays.
\<close>

definition norm_index :: "nat \<Rightarrow> int \<Rightarrow> nat option" where
  "norm_index n i =
     (if 0 \<le> i \<and> i < int n then Some (nat i)
      else if - int n \<le> i \<and> i < 0 then Some (nat (i + int n))
      else None)"

fun norm_indices :: "nat \<Rightarrow> int list \<Rightarrow> error + nat list" where
  "norm_indices n [] = Inr []"
| "norm_indices n (i # is) =
     (case norm_index n i of
        None \<Rightarrow> Inl IndexError
      | Some j \<Rightarrow> (case norm_indices n is of Inl e \<Rightarrow> Inl e | Inr js \<Rightarrow> Inr (j # js)))"

definition np_take :: "real list \<Rightarrow> int list \<Rightarrow> error + real list" where
  "np_take arr idx =
     (case norm_indices (length arr) idx of
        Inl e \<Rightarrow> Inl e
      | Inr js \<Rightarrow> Inr (map (\<lambda>j. arr ! j) js))"

fun put_all :: "real list \<Rightarrow> nat list \<Rightarrow> real list \<Rightarrow> real list" where
  "put_all arr (j # js) (v # vs) = put_all (arr[j := v]) js vs"
| "put_all arr _ _ = arr"

definition np_put :: "real list \<Rightarrow> int list \<Rightarrow> real list \<Rightarrow> error + real list" where
  "np_put arr idx vals =
     (case norm_indices (length arr) idx of
        Inl e \<Rightarrow> Inl e
      | Inr js \<Rightarrow> if length vals = length js then Inr (put_all arr js vals) else Inl ValueError)"

definition bucket :: "nat \<Rightarrow> int \<Rightarrow> nat" where
  \<comment> \<open>the position that a valid index \<open>i\<close> names in an array of \<open>n\<close> entries\<close>
  "bucket n i = (if i < 0 then nat (i + int n) else nat i)"

subsection \<open>The sampling-probability estimator\<close>

text \<open>
  \<^verbatim>\<open>sampling_p_estimation_single_hash(array_a, array_b, hash_indexs, global_step, alpha)\<close>:
  the right-hand side of the first assignment reads \<^verbatim>\<open>array_b[hash_indexs]\<close> and
  \<^verbatim>\<open>array_a[hash_indexs]\<close> before anything is written. The two arrays are mutated in
  place and returned; the model returns the new arrays. The arrays are two distinct
  objects, as in \<^verbatim>\<open>train_model\<close>.
\<close>

definition sampling_p_estimation_single_hash ::
  "real list \<Rightarrow> real list \<Rightarrow> int list \<Rightarrow> real \<Rightarrow> real \<Rightarrow> error + (real list \<times> real list \<times> fl list)" where
  "sampling_p_estimation_single_hash array_a array_b hash_indexs global_step alpha =
     and_then (np_take array_b hash_indexs) (\<lambda>bs.
     and_then (np_take array_a hash_indexs) (\<lambda>as.
     and_then (np_put array_b hash_indexs
                 (map2 (\<lambda>b a. (1 - alpha) * b + alpha * (global_step - a)) bs as)) (\<lambda>array_b'.
     and_then (np_put array_a hash_indexs (replicate (length hash_indexs) global_step)) (\<lambda>array_a'.
     and_then (np_take array_b' hash_indexs) (\<lambda>bs'.
     Inr (array_a', array_b', map (truediv 1) bs'))))))"

text \<open>
  Any sequence of calls, each with its touched buckets and its step value, on the same two
  arrays: what the batch loop of \<^verbatim>\<open>train_model\<close> does with the steps
  \<open>1, 2, 3, \<dots>\<close>. The result is the final arrays and the \<^verbatim>\<open>sampling_p\<close> of
  every call.
\<close>

fun estimation_calls ::
  "real \<Rightarrow> real list \<times> real list \<Rightarrow> (int list \<times> real) list \<Rightarrow>
   error + ((real list \<times> real list) \<times> fl list list)" where
  "estimation_calls alpha (array_a, array_b) [] = Inr ((array_a, array_b), [])"
| "estimation_calls alpha (array_a, array_b) ((hash_indexs, global_step) # calls) =
     and_then (sampling_p_estimation_single_hash array_a array_b hash_indexs global_step alpha)
       (\<lambda>(array_a', array_b', sampling_p).
     and_then (estimation_calls alpha (array_a', array_b') calls)
       (\<lambda>(final, ps). Inr (final, sampling_p # ps)))"

subsection \<open>The hash bucketer\<close>

text \<open>
  \<^verbatim>\<open>hash_simple(ids, hash_bucket_size)\<close>: \<open>ids\<close> is a tensor with a dtype. A tensor that
  is not int32 is cast to int32: an int64 keeps its low 32 bits, a float is truncated
  toward zero (the cast of a float outside the int32 range is not followed; string
  tensors are left out). \<^verbatim>\<open>tf.math.mod\<close> is the floor modulus (the result has the sign
  of the divisor), as \<open>mod\<close> on \<open>int\<close> is; a zero divisor is rejected. The bucket count
  is a Python integer that becomes the int32 operand of the modulus: a count outside the
  int32 range is cut to its low 32 bits, so that the count \<open>2\<^sup>3\<^sup>1\<close> divides as
  \<open>-2\<^sup>3\<^sup>1\<close> (a count outside the int64 range is not followed).
\<close>

datatype ids = Int32 "32 word list" | Int64 "64 word list" | Float "real list"

definition trunc_toward_zero :: "real \<Rightarrow> int" where
  "trunc_toward_zero x = (if 0 \<le> x then \<lfloor>x\<rfloor> else \<lceil>x\<rceil>)"

fun id_values :: "ids \<Rightarrow> int list" where
  \<comment> \<open>the integers a tensor holds, a float entry coerced to an integer\<close>
  "id_values (Int32 ws) = map sint ws"
| "id_values (Int64 ws) = map sint ws"
| "id_values (Float xs) = map trunc_toward_zero xs"

fun castable :: "ids \<Rightarrow> bool" where
  \<comment> \<open>every float entry truncates to an int32\<close>
  "castable (Float xs) = list_all (\<lambda>x. - (2 ^ 31) - 1 < x \<and> x < 2 ^ 31) xs"
| "castable _ = True"

definition int32_of :: "int \<Rightarrow> int" where
  \<comment> \<open>the low 32 bits of an integer, read as two's complement\<close>
  "int32_of v = sint (word_of_int v :: 32 word)"

definition tf_mod :: "32 word list \<Rightarrow> int \<Rightarrow> error + 32 word list" where
  "tf_mod xs y =
     (if y < - (2 ^ 63) \<or> 2 ^ 63 \<le> y then Inl NotModelled
      else if int32_of y = 0 \<and> xs \<noteq> [] then Inl InvalidArgumentError
      else Inr (map (\<lambda>x. word_of_int (sint x mod int32_of y)) xs))"

fun hash_simple :: "ids \<Rightarrow> int \<Rightarrow> error + 32 word list" where
  "hash_simple (Int32 ws) hash_bucket_size = tf_mod ws hash_bucket_size"
| "hash_simple (Int64 ws) hash_bucket_size = tf_mod (map scast ws) hash_bucket_size"
| "hash_simple (Float xs) hash_bucket_size =
     (if castable (Float xs)
      then tf_mod (map (\<lambda>x. word_of_int (trunc_toward_zero x)) xs) hash_bucket_size
      else Inl NotModelled)"

subsection \<open>LogQ-corrected batch softmax and the reward-weighted loss\<close>









definition reduce_mean :: "fl list \<Rightarrow> fl" where
  \<comment> \<open>a sum with a non-finite term is non-finite; the mean of no entries is \<open>0 / 0\<close>\<close>
  "reduce_mean xs =
     (case finite_values xs of
        None \<Rightarrow> NonFinite
      | Some vs \<Rightarrow> truediv (sum_list vs) (real (length vs)))"

definition reward_cross_entropy :: "real list \<Rightarrow> real list \<Rightarrow> error + fl" where
  "reward_cross_entropy reward output =
     (if length reward = length output
      then Inr (fl_neg (reduce_mean (map2 (\<lambda>r l. fl_mul (Finite r) l) reward (map fl_log output))))
      else Inl NotModelled)"

subsection \<open>Top-k metrics\<close>

text \<open>
  \<^verbatim>\<open>tf.math.top_k(input, k)\<close> on a rank-1 tensor returns the \<open>k\<close> largest entries and
  their indices, largest first, the lower index first among equal entries; it rejects
  a negative \<open>k\<close> and an input with fewer than \<open>k\<close> entries. \<^verbatim>\<open>tf.gather\<close> rejects an
  index outside the tensor. \<^verbatim>\<open>tf.math.count_nonzero\<close> gives an int64 count, and
  \<open>/\<close> on two such counts is a float64 division. \<^verbatim>\<open>tf.cond\<close> runs the branch
  that the predicate selects.
\<close>

definition top_k :: "real list \<Rightarrow> int \<Rightarrow> error + (real list \<times> nat list)" where
  "top_k input k =
     (if k < 0 \<or> int (length input) < k then Inl InvalidArgumentError
      else let indices = take (nat k) (sort_key (\<lambda>i. - (input ! i)) [0..<length input])
           in Inr (map (\<lambda>i. input ! i) indices, indices))"

definition tf_gather :: "real list \<Rightarrow> nat list \<Rightarrow> error + real list" where
  "tf_gather params indices =
     (if list_all (\<lambda>i. i < length params) indices
      then Inr (map (\<lambda>i. params ! i) indices)
      else Inl InvalidArgumentError)"

definition count_nonzero :: "real list \<Rightarrow> nat" where
  "count_nonzero xs = length (filter (\<lambda>v. v \<noteq> 0) xs)"

definition topk_recall :: "real list \<Rightarrow> real list \<Rightarrow> int \<Rightarrow> error + fl" where
  "topk_recall output reward k =
     and_then (top_k output k) (\<lambda>(values, indices).
       if 0 < count_nonzero reward
       then and_then (tf_gather reward indices) (\<lambda>hits.
              Inr (truediv (real (count_nonzero hits)) (real (count_nonzero reward))))
       else Inr (Finite 0))"

definition topk_positive :: "real list \<Rightarrow> real list \<Rightarrow> int \<Rightarrow> error + fl" where
  "topk_positive output reward k =
     and_then (top_k output k) (\<lambda>(values, indices).
       if 0 < count_nonzero reward
       then and_then (tf_gather reward indices) (\<lambda>hits.
              Inr (truediv (real (count_nonzero hits)) (real_of_int k)))
       else Inr (Finite 0))"

subsection \<open>The reward of a CSV line\<close>

text \<open>
  The last step of \<^verbatim>\<open>parse_csv_line\<close>: the five decoded label numbers (click, like,
  share, favorite, comment) are multiplied by the constant weight vector and summed.
  The label cell is padded or cut to five entries before; another length is not
  modelled.
\<close>

definition label_weights :: "real list" where
  "label_weights = [5 / 10, 2 / 10, 1 / 10, 2 / 10, 0]"

definition weight_labels :: "real list \<Rightarrow> error + real" where
  "weight_labels labels =
     (if length labels = length label_weights
      then Inr (sum_list (map2 (*) labels label_weights))
      else Inl NotModelled)"

subsection \<open>The bucket state in the training loop\<close>

text \<open>
  \<^verbatim>\<open>train_model\<close>, lines 247 to 323, as far as the bucket state, the step counter and
  the loss total go. The towers, the optimizer and the metrics are a state of type \<open>'m\<close>
  that the distributed train step (a parameter: \<^verbatim>\<open>build_model\<close> is another module)
  updates, returning the loss or an exception. \<open>cand_ids\<close> stands for
  \<^verbatim>\<open>inputs[1].get(ids_column)\<close>, which is \<open>None\<close> for a missing column. The dataset
  gives the batches of each epoch. \<open>epoch_end\<close> stands for the bookkeeping after the
  batch loop (results, summaries, checkpoints, metric reset).
\<close>

record 'm loop_state =
  arrays :: "(real list \<times> real list) option"
  towers :: 'm
  total_loss :: real
  step :: nat

definition epoch_arrays :: "int \<Rightarrow> real \<Rightarrow> error + (real list \<times> real list)" where
  \<comment> \<open>\<^verbatim>\<open>np.zeros(shape=(n,))\<close> and \<^verbatim>\<open>np.ones(shape=(n,)) * beta\<close>\<close>
  "epoch_arrays ids_hash_bucket_size beta =
     (if ids_hash_bucket_size < 0 then Inl ValueError
      else Inr (replicate (nat ids_hash_bucket_size) 0,
                map (\<lambda>one. one * beta) (replicate (nat ids_hash_bucket_size) 1)))"

definition streaming_estimate ::
  "('b \<Rightarrow> ids option) \<Rightarrow> int \<Rightarrow> 'b \<Rightarrow> 'm loop_state \<Rightarrow> error + ('m loop_state \<times> fl list option)" where
  \<comment> \<open>lines 262 to 264; \<^verbatim>\<open>alpha\<close> is left at its default 0.01\<close>
  "streaming_estimate cand_ids ids_hash_bucket_size inputs st =
     (case cand_ids inputs of
        None \<Rightarrow> Inl AttributeError
      | Some ids \<Rightarrow>
          and_then (hash_simple ids ids_hash_bucket_size) (\<lambda>cand_hash_indexs.
            case arrays st of
              None \<Rightarrow> Inl UnboundLocalError
            | Some (array_a, array_b) \<Rightarrow>
                and_then (sampling_p_estimation_single_hash array_a array_b
                            (map sint cand_hash_indexs) (real (step st)) (1 / 100))
                  (\<lambda>(array_a', array_b', sampling_p).
                     Inr (st\<lparr>arrays := Some (array_a', array_b')\<rparr>, Some sampling_p))))"

definition batch_step ::
  "('b \<Rightarrow> ids option) \<Rightarrow> ('b \<Rightarrow> fl list option \<Rightarrow> 'm \<Rightarrow> error + (real \<times> 'm)) \<Rightarrow>
   bool \<Rightarrow> int \<Rightarrow> 'b \<Rightarrow> 'm loop_state \<Rightarrow> error + 'm loop_state" where
  "batch_step cand_ids train_step streaming ids_hash_bucket_size inputs st =
     and_then (if streaming then streaming_estimate cand_ids ids_hash_bucket_size inputs st
               else Inr (st, None)) (\<lambda>(st1, sampling_p).
     and_then (train_step inputs sampling_p (towers st1)) (\<lambda>(loss, m).
       Inr (st1\<lparr>towers := m, total_loss := total_loss st1 + loss, step := step st1 + 1\<rparr>)))"

fun batch_loop ::
  "('b \<Rightarrow> ids option) \<Rightarrow> ('b \<Rightarrow> fl list option \<Rightarrow> 'm \<Rightarrow> error + (real \<times> 'm)) \<Rightarrow>
   bool \<Rightarrow> int \<Rightarrow> 'b list \<Rightarrow> 'm loop_state \<Rightarrow> error + 'm loop_state" where
  "batch_loop cand_ids train_step streaming n [] st = Inr st"
| "batch_loop cand_ids train_step streaming n (inputs # rest) st =
     and_then (batch_step cand_ids train_step streaming n inputs st)
       (batch_loop cand_ids train_step streaming n rest)"

definition epoch_start :: "bool \<Rightarrow> int \<Rightarrow> real \<Rightarrow> 'm loop_state \<Rightarrow> error + 'm loop_state" where
  \<comment> \<open>lines 248 to 256\<close>
  "epoch_start streaming ids_hash_bucket_size beta st =
     and_then (if streaming
               then and_then (epoch_arrays ids_hash_bucket_size beta) (\<lambda>ab. Inr (Some ab))
               else Inr (arrays st)) (\<lambda>arr.
       Inr (st\<lparr>arrays := arr, total_loss := 0, step := 1\<rparr>))"

definition run_epoch ::
  "('b \<Rightarrow> ids option) \<Rightarrow> ('b \<Rightarrow> fl list option \<Rightarrow> 'm \<Rightarrow> error + (real \<times> 'm)) \<Rightarrow>
   ('m loop_state \<Rightarrow> error + 'm) \<Rightarrow> bool \<Rightarrow> int \<Rightarrow> real \<Rightarrow> 'b list \<Rightarrow> 'm loop_state \<Rightarrow> error + 'm loop_state" where
  "run_epoch cand_ids train_step epoch_end streaming n beta batches st =
     and_then (epoch_start streaming n beta st) (\<lambda>st0.
     and_then (batch_loop cand_ids train_step streaming n batches st0) (\<lambda>st1.
     and_then (epoch_end st1) (\<lambda>m. Inr (st1\<lparr>towers := m\<rparr>))))"

fun epoch_loop ::
  "('b \<Rightarrow> ids option) \<Rightarrow> ('b \<Rightarrow> fl list option \<Rightarrow> 'm \<Rightarrow> error + (real \<times> 'm)) \<Rightarrow>
   ('m loop_state \<Rightarrow> error + 'm) \<Rightarrow> bool \<Rightarrow> int \<Rightarrow> real \<Rightarrow> 'b list list \<Rightarrow> 'm loop_state \<Rightarrow> error + 'm loop_state" where
  "epoch_loop cand_ids train_step epoch_end streaming n beta [] st = Inr st"
| "epoch_loop cand_ids train_step epoch_end streaming n beta (batches # later) st =
     and_then (run_epoch cand_ids train_step epoch_end streaming n beta batches st)
       (epoch_loop cand_ids train_step epoch_end streaming n beta later)"

definition train_model ::
  "('b \<Rightarrow> ids option) \<Rightarrow> ('b \<Rightarrow> fl list option \<Rightarrow> 'm \<Rightarrow> error + (real \<times> 'm)) \<Rightarrow>
   ('m loop_state \<Rightarrow> error + 'm) \<Rightarrow> (nat \<Rightarrow> 'b list) \<Rightarrow> int \<Rightarrow> int \<Rightarrow> bool \<Rightarrow> real \<Rightarrow> 'm \<Rightarrow>
   error + 'm loop_state" where
  \<comment> \<open>\<^verbatim>\<open>for epoch in range(epochs)\<close>; the result keeps the loop variables beside the towers\<close>
  "train_model cand_ids train_step epoch_end dataset epochs ids_hash_bucket_size streaming beta m =
     epoch_loop cand_ids train_step epoch_end streaming ids_hash_bucket_size beta
       (map dataset [0..<nat epochs])
       \<lparr>arrays = None, towers = m, total_loss = 0, step = 1\<rparr>"

section \<open>Properties\<close>

subsection \<open>The estimator update\<close>

lemma length_put_all: "length (put_all arr js vs) = length arr"
  by (induction arr js vs rule: put_all.induct) simp_all

lemma put_all_nth:
  "length js = length vs \<Longrightarrow> \<forall>m<length js. vs ! m = f (js ! m) \<Longrightarrow> j < length arr \<Longrightarrow>
   put_all arr js vs ! j = (if j \<in> set js then f j else arr ! j)"
proof (induction js vs arbitrary: arr rule: list_induct2)
  case Nil
  then show ?case by simp
next
  case (Cons i js v vs)
  have v: "v = f i" using Cons.prems(1) by auto
  have rest: "\<forall>m<length js. vs ! m = f (js ! m)" using Cons.prems(1) by auto
  have "put_all (arr[i := v]) js vs ! j = (if j \<in> set js then f j else arr[i := v] ! j)"
    using Cons.IH [OF rest] Cons.prems(2) by simp
  then show ?case using v Cons.prems(2) by (auto simp: nth_list_update)
qed

lemma norm_index_bucket:
  "- int n \<le> i \<Longrightarrow> i < int n \<Longrightarrow> norm_index n i = Some (bucket n i)"
  by (auto simp: norm_index_def bucket_def)

lemma norm_indices_buckets:
  assumes "\<forall>i\<in>set idx. - int n \<le> i \<and> i < int n"
  shows "norm_indices n idx = Inr (map (bucket n) idx)"
  using assms by (induction idx) (simp_all add: norm_index_bucket)

lemma bucket_less: "- int n \<le> i \<Longrightarrow> i < int n \<Longrightarrow> bucket n i < n"
  by (auto simp: bucket_def)

lemma map2_map_map: "map2 f (map g xs) (map h xs) = map (\<lambda>x. f (g x) (h x)) xs"
  by (induction xs) simp_all

lemma estimation_result:
  assumes len: "length array_a = length array_b"
    and valid: "\<forall>i\<in>set hash_indexs. - int (length array_b) \<le> i \<and> i < int (length array_b)"
  shows "sampling_p_estimation_single_hash array_a array_b hash_indexs global_step alpha =
     (let js = map (bucket (length array_b)) hash_indexs;
          new_b = put_all array_b js
            (map (\<lambda>j. (1 - alpha) * array_b ! j + alpha * (global_step - array_a ! j)) js)
      in Inr (put_all array_a js (replicate (length hash_indexs) global_step), new_b,
              map (\<lambda>j. truediv 1 (new_b ! j)) js))"
proof -
  define js where "js = map (bucket (length array_b)) hash_indexs"
  define new_b where "new_b = put_all array_b js
      (map (\<lambda>j. (1 - alpha) * array_b ! j + alpha * (global_step - array_a ! j)) js)"
  have nb: "norm_indices (length array_b) hash_indexs = Inr js"
    unfolding js_def by (rule norm_indices_buckets [OF valid])
  have na: "norm_indices (length array_a) hash_indexs = Inr js"
    using nb len by simp
  have lnb: "length new_b = length array_b"
    by (simp add: new_b_def length_put_all)
  have ljs: "length js = length hash_indexs"
    by (simp add: js_def)
  show ?thesis
    unfolding Let_def js_def [symmetric] new_b_def [symmetric]
    by (simp add: sampling_p_estimation_single_hash_def np_take_def np_put_def nb na
        map2_map_map ljs lnb new_b_def [symmetric] o_def)
qed

lemma singleton_nth: "length xs = Suc 0 \<Longrightarrow> xs = [xs ! 0]"
  by (cases xs) simp_all

text \<open>
  Claim C1. One call of the estimator, on two arrays of the same length and indices that
  are valid for them, returns; for every touched bucket \<open>j\<close> the new \<open>array_b ! j\<close>
  is \<open>(1 - alpha) * array_b ! j + alpha * (global_step - array_a ! j)\<close>, computed from
  the values before the call, and the new \<open>array_a ! j\<close> is \<open>global_step\<close>; the other
  buckets keep their values; and \<open>sampling_p\<close> has one entry per index, in the order of
  the indices, the entry for a bucket being \<open>1 / array_b ! j\<close> of the updated
  array (non-finite where that entry is zero). A repeated index changes nothing: every
  write to a bucket carries the same value. With \<open>array_a = [0]\<close>, \<open>array_b = [100]\<close>,
  \<open>alpha = 0.01\<close> and bucket 0 touched at step 1, the new \<open>array_b\<close> is \<open>[99.01]\<close> and
  \<open>sampling_p\<close> is \<open>[1 / 99.01]\<close>.
\<close>

theorem sampling_p_estimation_update:
  assumes len: "length array_a = length array_b"
    and valid: "\<forall>i\<in>set hash_indexs. - int (length array_b) \<le> i \<and> i < int (length array_b)"
  shows "\<exists>array_a' array_b' sampling_p.
     sampling_p_estimation_single_hash array_a array_b hash_indexs global_step alpha =
       Inr (array_a', array_b', sampling_p) \<and>
     length array_a' = length array_a \<and> length array_b' = length array_b \<and>
     length sampling_p = length hash_indexs \<and>
     (\<forall>j<length array_b. j \<in> bucket (length array_b) ` set hash_indexs \<longrightarrow>
        array_b' ! j = (1 - alpha) * array_b ! j + alpha * (global_step - array_a ! j) \<and>
        array_a' ! j = global_step) \<and>
     (\<forall>j<length array_b. j \<notin> bucket (length array_b) ` set hash_indexs \<longrightarrow>
        array_b' ! j = array_b ! j \<and> array_a' ! j = array_a ! j) \<and>
     (\<forall>m<length hash_indexs.
        sampling_p ! m = truediv 1 (array_b' ! bucket (length array_b) (hash_indexs ! m)))"
proof -
  define js where "js = map (bucket (length array_b)) hash_indexs"
  define new_b where "new_b = put_all array_b js
      (map (\<lambda>j. (1 - alpha) * array_b ! j + alpha * (global_step - array_a ! j)) js)"
  define new_a where "new_a = put_all array_a js (replicate (length hash_indexs) global_step)"
  have res: "sampling_p_estimation_single_hash array_a array_b hash_indexs global_step alpha =
     Inr (new_a, new_b, map (\<lambda>j. truediv 1 (new_b ! j)) js)"
    unfolding new_a_def new_b_def js_def
    using estimation_result [OF len valid, of global_step alpha] by (simp add: Let_def)
  have sjs: "set js = bucket (length array_b) ` set hash_indexs"
    by (simp add: js_def)
  have ljs: "length js = length hash_indexs"
    by (simp add: js_def)
  have b: "new_b ! j = (if j \<in> set js
             then (1 - alpha) * array_b ! j + alpha * (global_step - array_a ! j)
             else array_b ! j)" if "j < length array_b" for j
    unfolding new_b_def by (rule put_all_nth) (simp_all add: that)
  have a: "new_a ! j = (if j \<in> set js then global_step else array_a ! j)"
    if "j < length array_b" for j
    unfolding new_a_def using that len ljs
    by (intro put_all_nth [where f = "\<lambda>_. global_step"]) simp_all
  have p: "map (\<lambda>j. truediv 1 (new_b ! j)) js ! m =
      truediv 1 (new_b ! bucket (length array_b) (hash_indexs ! m))"
    if "m < length hash_indexs" for m
    using that by (simp add: js_def)
  show ?thesis
    apply (rule exI [of _ new_a], rule exI [of _ new_b])
    apply (rule exI [of _ "map (\<lambda>j. truediv 1 (new_b ! j)) js"])
    using res a b p sjs ljs
    by (simp add: new_a_def new_b_def length_put_all)
qed

theorem sampling_p_estimation_update_witness:
  "sampling_p_estimation_single_hash [0] [100] [0] 1 (1 / 100) =
     Inr ([1], [9901 / 100], [Finite (1 / (9901 / 100))])"
proof -
  have h1: "length [0::real] = length [100::real]"
    by simp
  have h2: "\<forall>i\<in>set [0::int]. - int (length [100::real]) \<le> i \<and> i < int (length [100::real])"
    by simp
  obtain a' b' p where
    r: "sampling_p_estimation_single_hash [0] [100] [0] 1 (1 / 100) = Inr (a', b', p)" and
    l: "length a' = length [0::real]" "length b' = length [100::real]"
       "length p = length [0::int]" and
    b: "\<forall>j<length [100::real]. j \<in> bucket (length [100::real]) ` set [0] \<longrightarrow>
          b' ! j = (1 - 1 / 100) * [100] ! j + 1 / 100 * (1 - [0] ! j) \<and> a' ! j = 1" and
    p: "\<forall>m<length [0::int]. p ! m = truediv 1 (b' ! bucket (length [100::real]) ([0] ! m))"
    using sampling_p_estimation_update [OF h1 h2, of 1 "1 / 100"] by blast
  from b have b0: "b' ! 0 = 9901 / 100" and a0: "a' ! 0 = 1"
    by (simp_all add: bucket_def)
  from p b0 have p0: "p ! 0 = Finite (1 / (9901 / 100))"
    by (simp add: bucket_def truediv_def)
  have "a' = [a' ! 0]" "b' = [b' ! 0]" "p = [p ! 0]"
    using l by (simp_all add: singleton_nth)
  then have "a' = [1]" "b' = [9901 / 100]" "p = [Finite (1 / (9901 / 100))]"
    unfolding a0 b0 p0 .
  with r show ?thesis by (simp only:)
qed

subsection \<open>Positivity of the gap estimate\<close>

lemma estimation_step_positive:
  assumes alpha: "0 < alpha" "alpha \<le> 1"
    and len: "length array_a = n" "length array_b = n"
    and pos: "\<forall>x\<in>set array_b. 0 < x"
    and before: "\<forall>x\<in>set array_a. x < s"
    and valid: "\<forall>i\<in>set idx. - int n \<le> i \<and> i < int n"
  shows "\<exists>a' b' p. sampling_p_estimation_single_hash array_a array_b idx s alpha = Inr (a', b', p) \<and>
           length a' = n \<and> length b' = n \<and> (\<forall>x\<in>set b'. 0 < x) \<and> (\<forall>x\<in>set a'. x \<le> s) \<and>
           length p = length idx \<and> (\<forall>q\<in>set p. \<exists>v. q = Finite v \<and> 0 < v)"
proof -
  define js where "js = map (bucket n) idx"
  define new_b where "new_b = put_all array_b js
      (map (\<lambda>j. (1 - alpha) * array_b ! j + alpha * (s - array_a ! j)) js)"
  define new_a where "new_a = put_all array_a js (replicate (length idx) s)"
  have res: "sampling_p_estimation_single_hash array_a array_b idx s alpha =
     Inr (new_a, new_b, map (\<lambda>j. truediv 1 (new_b ! j)) js)"
    unfolding new_a_def new_b_def js_def
    using estimation_result [of array_a array_b idx s alpha] len valid by (simp add: Let_def)
  have ljs: "length js = length idx"
    by (simp add: js_def)
  have js_less: "j < n" if "j \<in> set js" for j
    using that valid by (auto simp: js_def bucket_less)
  have b: "new_b ! j = (if j \<in> set js
             then (1 - alpha) * array_b ! j + alpha * (s - array_a ! j)
             else array_b ! j)" if "j < n" for j
    unfolding new_b_def by (rule put_all_nth) (simp_all add: that len)
  have a: "new_a ! j = (if j \<in> set js then s else array_a ! j)" if "j < n" for j
    unfolding new_a_def using that len ljs
    by (intro put_all_nth [where f = "\<lambda>_. s"]) simp_all
  have lb: "length new_b = n" and la: "length new_a = n"
    by (simp_all add: new_b_def new_a_def length_put_all len)
  have b_pos: "0 < new_b ! j" if "j < n" for j
  proof (cases "j \<in> set js")
    case True
    have "0 < array_b ! j" and "array_a ! j < s"
      using that pos before len by simp_all
    then have "0 \<le> (1 - alpha) * array_b ! j" and "0 < alpha * (s - array_a ! j)"
      using alpha by simp_all
    then show ?thesis using True b [OF that] by simp
  next
    case False
    then show ?thesis using b [OF that] pos len that by simp
  qed
  have a_le: "new_a ! j \<le> s" if "j < n" for j
    using a [OF that] before len that by (auto simp: less_imp_le)
  have "\<forall>x\<in>set new_b. 0 < x"
    using b_pos lb by (auto simp: in_set_conv_nth)
  moreover have "\<forall>x\<in>set new_a. x \<le> s"
    using a_le la by (auto simp: in_set_conv_nth)
  moreover have "\<forall>q\<in>set (map (\<lambda>j. truediv 1 (new_b ! j)) js). \<exists>v. q = Finite v \<and> 0 < v"
  proof
    fix q assume "q \<in> set (map (\<lambda>j. truediv 1 (new_b ! j)) js)"
    then obtain j where j: "j \<in> set js" and q: "q = truediv 1 (new_b ! j)"
      by auto
    have "0 < new_b ! j"
      using b_pos js_less j by simp
    then show "\<exists>v. q = Finite v \<and> 0 < v"
      by (simp add: q truediv_def)
  qed
  ultimately show ?thesis
    using res la lb ljs by simp
qed

lemma estimation_calls_positive:
  assumes alpha: "0 < alpha" "alpha \<le> 1"
  shows "length array_a = n \<Longrightarrow> length array_b = n \<Longrightarrow> \<forall>x\<in>set array_b. 0 < x \<Longrightarrow>
    \<forall>c\<in>set calls. (\<forall>x\<in>set array_a. x < snd c) \<and> (\<forall>i\<in>set (fst c). - int n \<le> i \<and> i < int n) \<Longrightarrow>
    sorted_wrt (<) (map snd calls) \<Longrightarrow>
    \<exists>a b ps. estimation_calls alpha (array_a, array_b) calls = Inr ((a, b), ps) \<and>
       length b = n \<and> (\<forall>x\<in>set b. 0 < x) \<and> length ps = length calls \<and>
       (\<forall>q\<in>set (concat ps). \<exists>v. q = Finite v \<and> 0 < v)"
proof (induction calls arbitrary: array_a array_b)
  case Nil
  then show ?case by simp
next
  case (Cons c calls)
  obtain idx s where c: "c = (idx, s)" by (cases c)
  have before: "\<forall>x\<in>set array_a. x < s" and valid: "\<forall>i\<in>set idx. - int n \<le> i \<and> i < int n"
    using Cons.prems(4) c by simp_all
  obtain a' b' p where
    r: "sampling_p_estimation_single_hash array_a array_b idx s alpha = Inr (a', b', p)" and
    l: "length a' = n" "length b' = n" and bp: "\<forall>x\<in>set b'. 0 < x" and
    al: "\<forall>x\<in>set a'. x \<le> s" and pp: "\<forall>q\<in>set p. \<exists>v. q = Finite v \<and> 0 < v"
    using estimation_step_positive [OF alpha Cons.prems(1,2,3) before valid] by blast
  have later: "\<forall>c'\<in>set calls. s < snd c'"
    using Cons.prems(5) c by auto
  have rest: "\<forall>c'\<in>set calls. (\<forall>x\<in>set a'. x < snd c') \<and>
      (\<forall>i\<in>set (fst c'). - int n \<le> i \<and> i < int n)"
    using later al Cons.prems(4) by fastforce
  have sorted: "sorted_wrt (<) (map snd calls)"
    using Cons.prems(5) by simp
  obtain a b ps where
    rr: "estimation_calls alpha (a', b') calls = Inr ((a, b), ps)" and
    fin: "length b = n" "\<forall>x\<in>set b. 0 < x" "length ps = length calls"
      "\<forall>q\<in>set (concat ps). \<exists>v. q = Finite v \<and> 0 < v"
    using Cons.IH [OF l bp rest sorted] by blast
  have "estimation_calls alpha (array_a, array_b) (c # calls) = Inr ((a, b), p # ps)"
    by (simp add: c r rr)
  then show ?case using fin pp by auto
qed

text \<open>
  Claim C2. Let \<open>0 < alpha \<le> 1\<close> and \<open>0 < beta\<close>. From the epoch-start state (\<open>array_a\<close>
  all zeros, \<open>array_b\<close> all \<open>beta\<close>, \<open>n\<close> buckets), any sequence of estimator calls
  whose step values are at least 1 and strictly increasing, on indices valid for the
  arrays, returns; every entry of the final \<open>array_b\<close> is strictly positive, and every
  \<open>sampling_p\<close> value returned by any of the calls is a finite, strictly positive number.
  Every prefix of a sequence of calls is such a sequence, so the arrays are positive after
  each call.
\<close>

theorem array_b_stays_positive:
  assumes "0 < alpha" and "alpha \<le> 1" and "0 < beta"
    and "sorted_wrt (<) (map snd calls)"
    and "\<forall>c\<in>set calls. 1 \<le> snd c \<and> (\<forall>i\<in>set (fst c). - int n \<le> i \<and> i < int n)"
  shows "\<exists>a b ps. estimation_calls alpha (replicate n 0, replicate n beta) calls = Inr ((a, b), ps) \<and>
       length b = n \<and> (\<forall>x\<in>set b. 0 < x) \<and> length ps = length calls \<and>
       (\<forall>q\<in>set (concat ps). \<exists>v. q = Finite v \<and> 0 < v)"
proof (rule estimation_calls_positive [OF assms(1,2)])
  show "length (replicate n (0::real)) = n" and "length (replicate n beta) = n"
    by simp_all
  show "\<forall>x\<in>set (replicate n beta). 0 < x"
    using assms(3) by simp
  show "\<forall>c\<in>set calls. (\<forall>x\<in>set (replicate n (0::real)). x < snd c) \<and>
      (\<forall>i\<in>set (fst c). - int n \<le> i \<and> i < int n)"
    using assms(5) by fastforce
  show "sorted_wrt (<) (map snd calls)"
    by (rule assms(4))
qed

theorem array_b_stays_positive_witness:
  "\<exists>a b ps. estimation_calls (1 / 100) (replicate 2 0, replicate 2 100)
       [([0, 1], 1), ([1, - 1], 2)] = Inr ((a, b), ps) \<and>
     length b = 2 \<and> (\<forall>x\<in>set b. 0 < x) \<and>
     length ps = length [([0, 1], 1 :: real), ([1, - 1 :: int], 2)] \<and>
     (\<forall>q\<in>set (concat ps). \<exists>v. q = Finite v \<and> 0 < v)"
  by (rule array_b_stays_positive) simp_all

subsection \<open>The hash bucketer\<close>

lemma sint_word_of_int32:
  assumes "- (2 ^ 31) \<le> v" and "v < 2 ^ 31"
  shows "sint (word_of_int v :: 32 word) = v"
proof -
  have "sint (word_of_int v :: 32 word) = signed_take_bit (LENGTH(32) - 1) v"
    by (rule sint_sbintrunc')
  also have "\<dots> = signed_take_bit 31 v"
    by simp
  also have "\<dots> = v"
    using assms by (rule signed_take_bit_int_eq_self)
  finally show ?thesis .
qed

lemma sint_bucket_word:
  assumes "0 < n" and "n < 2 ^ 31"
  shows "sint (word_of_int (x mod n) :: 32 word) = x mod n"
proof -
  have "0 \<le> x mod n" and "x mod n < n"
    using assms by simp_all
  then have "- (2 ^ 31) \<le> x mod n" and "x mod n < 2 ^ 31"
    using assms by linarith+
  then show ?thesis
    by (rule sint_word_of_int32)
qed

lemma int32_of_sint64: "int32_of (sint (w :: 64 word)) = sint (scast w :: 32 word)"
  unfolding int32_of_def by (simp only: scast_eq)

lemma int32_of_small: "- (2 ^ 31) \<le> v \<Longrightarrow> v < 2 ^ 31 \<Longrightarrow> int32_of v = v"
  unfolding int32_of_def by (rule sint_word_of_int32)

lemma int32_of_sint32: "int32_of (sint (w :: 32 word)) = sint w"
proof (rule int32_of_small)
  show "- (2 ^ 31) \<le> sint w"
    using sint_ge [of w] by simp
  show "sint w < 2 ^ 31"
    using sint_lt [of w] by simp
qed

lemma tf_mod_Inr:
  assumes "0 < n" and "n < 2 ^ 31"
  shows "tf_mod xs n = Inr (map (\<lambda>x. word_of_int (sint x mod n)) xs)"
proof -
  have "int32_of n = n"
    using assms by (intro int32_of_small) simp_all
  moreover have "\<not> (n < - (2 ^ 63) \<or> 2 ^ 63 \<le> n)"
    using assms by simp
  ultimately show ?thesis
    using assms(1) unfolding tf_mod_def by simp
qed

lemma hash_simple_Inr:
  assumes "0 < n" and "n < 2 ^ 31" and "castable ids"
  shows "\<exists>out. hash_simple ids n = Inr out \<and>
           map sint out = map (\<lambda>v. int32_of v mod n) (id_values ids)"
proof (cases ids)
  case (Int32 ws)
  then show ?thesis
    using assms by (simp add: tf_mod_Inr sint_bucket_word int32_of_sint32 o_def)
next
  case (Int64 ws)
  then show ?thesis
    using assms by (simp add: tf_mod_Inr sint_bucket_word int32_of_sint64 o_def)
next
  case (Float xs)
  have "hash_simple (Float xs) n =
      Inr (map (\<lambda>x. word_of_int (sint (word_of_int (trunc_toward_zero x) :: 32 word) mod n)) xs)"
    using assms Float by (simp add: tf_mod_Inr o_def del: castable.simps)
  then show ?thesis
    using assms(1,2) Float by (simp add: sint_bucket_word int32_of_def o_def)
qed

text \<open>
  Claim C8, as the code has it. For a tensor of IDs that is int32, int64 or float with
  entries that truncate to an int32 (a tensor that is not int32 is coerced to int32
  first) and a bucket count \<open>n\<close> with \<open>0 < n < 2\<^sup>3\<^sup>1\<close>, \<open>hash_simple\<close> returns one
  int32 per ID, in the order of the IDs, each in \<open>[0, n)\<close>: the floor modulus by \<open>n\<close>
  of the ID cut to its low 32 bits. The bucket of an ID depends on the ID and \<open>n\<close>
  alone. For IDs in \<open>[0, 2\<^sup>3\<^sup>1)\<close> it is \<open>ID mod n\<close>.
\<close>

theorem hash_simple_buckets:
  assumes "0 < n" and "n < 2 ^ 31" and "castable ids"
  shows "\<exists>out. hash_simple ids n = Inr out \<and>
           map sint out = map (\<lambda>v. int32_of v mod n) (id_values ids) \<and>
           (\<forall>b\<in>set out. 0 \<le> sint b \<and> sint b < n) \<and>
           ((\<forall>v\<in>set (id_values ids). 0 \<le> v \<and> v < 2 ^ 31) \<longrightarrow>
              map sint out = map (\<lambda>v. v mod n) (id_values ids))"
proof -
  obtain out where out: "hash_simple ids n = Inr out"
    and vals: "map sint out = map (\<lambda>v. int32_of v mod n) (id_values ids)"
    using hash_simple_Inr [OF assms] by blast
  have range: "0 \<le> sint b \<and> sint b < n" if "b \<in> set out" for b
  proof -
    from that have "sint b \<in> set (map sint out)" by simp
    then obtain v where "sint b = int32_of v mod n" unfolding vals by auto
    then show ?thesis using assms by simp
  qed
  have small: "map sint out = map (\<lambda>v. v mod n) (id_values ids)"
    if "\<forall>v\<in>set (id_values ids). 0 \<le> v \<and> v < 2 ^ 31"
    unfolding vals using that by (intro map_cong) (auto simp: int32_of_small)
  show ?thesis using out vals range small by blast
qed

theorem hash_simple_buckets_witness:
  "(\<exists>out. hash_simple (Int64 [5, 7, 4294967302]) 4 = Inr out \<and> map sint out = [1, 3, 2]) \<and>
   (\<exists>out. hash_simple (Float [57 / 10, 72 / 10]) 4 = Inr out \<and> map sint out = [1, 3])"
proof (rule conjI)
  have h1: "(0::int) < 4" and h2: "(4::int) < 2 ^ 31" by simp_all
  have c1: "castable (Int64 [5, 7, 4294967302])" by simp
  obtain out where r: "hash_simple (Int64 [5, 7, 4294967302]) 4 = Inr out"
    and v: "map sint out = map (\<lambda>v. int32_of v mod 4) (id_values (Int64 [5, 7, 4294967302]))"
    using hash_simple_buckets [OF h1 h2 c1] by blast
  from v have "map sint out = [1, 3, 2]"
    by (simp add: int32_of_def)
  with r show "\<exists>out. hash_simple (Int64 [5, 7, 4294967302]) 4 = Inr out \<and> map sint out = [1, 3, 2]"
    by (intro exI conjI)
  have c2: "castable (Float [57 / 10, 72 / 10])" by simp
  obtain out' where r': "hash_simple (Float [57 / 10, 72 / 10]) 4 = Inr out'"
    and v': "map sint out' = map (\<lambda>v. int32_of v mod 4) (id_values (Float [57 / 10, 72 / 10]))"
    using hash_simple_buckets [OF h1 h2 c2] by blast
  from v' have "map sint out' = [1, 3]"
    by (simp add: int32_of_def trunc_toward_zero_def)
  with r' show "\<exists>out. hash_simple (Float [57 / 10, 72 / 10]) 4 = Inr out \<and> map sint out = [1, 3]"
    by (intro exI conjI)
qed

text \<open>
  The claim as stated fails in two places. The int64 ID \<open>2\<^sup>3\<^sup>1\<close> is cast to the int32
  \<open>-2\<^sup>3\<^sup>1\<close> and lands in bucket 1 of 3, while \<open>2\<^sup>3\<^sup>1 mod 3 = 2\<close>. And the positive
  bucket count \<open>2\<^sup>3\<^sup>1\<close> becomes the int32 divisor \<open>-2\<^sup>3\<^sup>1\<close>, so that the ID 5 gets
  the bucket \<open>5 - 2\<^sup>3\<^sup>1\<close>, which is negative.
\<close>

theorem hash_simple_wraps:
  "hash_simple (Int64 [2147483648]) 3 = Inr [1] \<and> (2147483648 :: int) mod 3 = 2 \<and>
   hash_simple (Int32 [5]) 2147483648 = Inr [- 2147483643] \<and>
   sint (- 2147483643 :: 32 word) = - 2147483643"
  by (simp add: tf_mod_def int32_of_def)

subsection \<open>LogQ-corrected softmax and loss\<close>


lemma sum_list_map_upt: "sum_list (map f [0..<n]) = (\<Sum>i<n. f i)"
  by (simp add: sum_list_distinct_conv_sum_set atLeast0LessThan)






lemma finite_values_Finite: "finite_values (map Finite vs) = Some vs"
  by (induction vs) simp_all










lemma fl_mul_log_pos:
  assumes "length reward = length output" and "\<forall>v\<in>set output. 0 < v"
  shows "map2 (\<lambda>r l. fl_mul (Finite r) l) reward (map fl_log output) =
         map Finite (map (\<lambda>i. reward ! i * ln (output ! i)) [0..<length output])"
  using assms by (intro nth_equalityI) (simp_all add: fl_log_def)

text \<open>
  Claim C6. For a reward vector and a strictly positive output vector of the same length,
  \<open>reward_cross_entropy\<close> is the negated mean over the batch of
  \<open>reward ! i * ln (output ! i)\<close>; over the empty batch the mean is the float division
  \<open>0 / 0\<close>.
\<close>

theorem reward_cross_entropy_mean:
  assumes len: "length reward = length output" and pos: "\<forall>v\<in>set output. 0 < v"
  shows "reward_cross_entropy reward output =
     Inr (if output = [] then NonFinite
          else Finite (- ((\<Sum>i<length output. reward ! i * ln (output ! i)) /
                          real (length output))))"
proof -
  have "reduce_mean (map2 (\<lambda>r l. fl_mul (Finite r) l) reward (map fl_log output)) =
      truediv (\<Sum>i<length output. reward ! i * ln (output ! i)) (real (length output))"
    unfolding fl_mul_log_pos [OF len pos] reduce_mean_def finite_values_Finite option.case
    by (simp add: sum_list_map_upt)
  then show ?thesis
    using len by (simp add: reward_cross_entropy_def truediv_def)
qed

theorem reward_cross_entropy_mean_witness:
  "reward_cross_entropy [1, 2] [1, 1] = Inr (Finite 0) \<and>
   reward_cross_entropy [1, 0] [exp (- 4), 1 / 2] = Inr (Finite 2)"
proof -
  have h1: "length [1, 2 :: real] = length [1, 1 :: real]" "\<forall>v\<in>set [1, 1 :: real]. 0 < v"
    by simp_all
  have h2: "length [1, 0 :: real] = length [exp (- 4), 1 / 2 :: real]"
    "\<forall>v\<in>set [exp (- 4), 1 / 2 :: real]. 0 < v"
    by simp_all
  show ?thesis
    using reward_cross_entropy_mean [OF h1] reward_cross_entropy_mean [OF h2]
    by (simp add: lessThan_Suc numeral_2_eq_2)
qed

subsection \<open>Top-k metrics\<close>

lemma top_k_short: "int (length input) < k \<Longrightarrow> top_k input k = Inl InvalidArgumentError"
  by (simp add: top_k_def)

lemma top_k_Inr:
  "0 \<le> k \<Longrightarrow> k \<le> int (length input) \<Longrightarrow>
   top_k input k =
     Inr (map (\<lambda>i. input ! i) (take (nat k) (sort_key (\<lambda>i. - (input ! i)) [0..<length input])),
          take (nat k) (sort_key (\<lambda>i. - (input ! i)) [0..<length input]))"
  by (simp add: top_k_def Let_def)

lemma count_nonzero_zero: "\<forall>r\<in>set reward. r = 0 \<Longrightarrow> count_nonzero reward = 0"
  by (simp add: count_nonzero_def)

text \<open>
  Claim C4, as the code has it. On a batch with at least \<open>k\<close> scores (\<open>k \<ge> 0\<close>) whose
  reward vector has no nonzero entry, \<open>topk_recall\<close> and \<open>topk_positive\<close> both return
  exactly 0, through the branch that divides nothing.
\<close>

theorem topk_zero_reward:
  assumes "0 \<le> k" and "k \<le> int (length output)" and "\<forall>r\<in>set reward. r = 0"
  shows "topk_recall output reward k = Inr (Finite 0) \<and>
         topk_positive output reward k = Inr (Finite 0)"
  using assms by (simp add: topk_recall_def topk_positive_def top_k_Inr count_nonzero_zero)

theorem topk_zero_reward_witness:
  "topk_recall [3 / 10, 7 / 10] [0, 0] 2 = Inr (Finite 0) \<and>
   topk_positive [3 / 10, 7 / 10] [0, 0] 2 = Inr (Finite 0)"
  by (rule topk_zero_reward) simp_all

text \<open>
  The claim as stated fails on a batch shorter than \<open>k\<close>: the top-k selection runs
  before the guard on the reward and rejects the batch, all-zero reward or not.
\<close>

theorem topk_zero_reward_short_batch:
  "topk_recall [1] [0] 10 = Inl InvalidArgumentError \<and>
   topk_positive [1] [0] 10 = Inl InvalidArgumentError"
  by (simp add: topk_recall_def topk_positive_def top_k_def)

text \<open>
  Claim C10. On a batch with fewer than \<open>k\<close> scores the top-k selection fails, and with it
  \<open>topk_recall\<close> and \<open>topk_positive\<close>, whatever the reward vector is (in particular when
  it is not all zero). The training step calls both with the default \<open>k = 10\<close>.
\<close>

theorem topk_requires_k_entries:
  assumes "int (length output) < k"
  shows "topk_recall output reward k = Inl InvalidArgumentError \<and>
         topk_positive output reward k = Inl InvalidArgumentError"
  using assms by (simp add: topk_recall_def topk_positive_def top_k_short)

theorem topk_requires_k_entries_witness:
  "topk_recall [6 / 10, 4 / 10] [1, 0] 10 = Inl InvalidArgumentError \<and>
   topk_positive [6 / 10, 4 / 10] [1, 0] 10 = Inl InvalidArgumentError"
  by (rule topk_requires_k_entries) simp


lemma count_nonzero_card: "count_nonzero xs = card {i. i < length xs \<and> xs ! i \<noteq> 0}"
  unfolding count_nonzero_def by (rule length_filter_conv_card)

lemma count_nonzero_gather:
  assumes "distinct sel"
  shows "count_nonzero (map (\<lambda>i. reward ! i) sel) = card {i \<in> set sel. reward ! i \<noteq> 0}"
proof -
  have "count_nonzero (map (\<lambda>i. reward ! i) sel) = length (filter (\<lambda>i. reward ! i \<noteq> 0) sel)"
    by (simp add: count_nonzero_def filter_map o_def)
  also have "\<dots> = card (set (filter (\<lambda>i. reward ! i \<noteq> 0) sel))"
    using assms by (intro distinct_card [symmetric] distinct_filter)
  also have "set (filter (\<lambda>i. reward ! i \<noteq> 0) sel) = {i \<in> set sel. reward ! i \<noteq> 0}"
    by simp
  finally show ?thesis .
qed

lemma count_nonzero_pos: "\<exists>r\<in>set reward. r \<noteq> 0 \<Longrightarrow> 0 < count_nonzero reward"
  by (auto simp: count_nonzero_def filter_empty_conv)

lemma top_indices:
  fixes input :: "real list"
  assumes "k \<le> length input"
  defines "sel \<equiv> take k (sort_key (\<lambda>i. - (input ! i)) [0..<length input])"
  shows "distinct sel" and "length sel = k" and "set sel \<subseteq> {..<length input}"
    and "\<forall>i\<in>set sel. \<forall>j<length input. j \<notin> set sel \<longrightarrow> input ! j \<le> input ! i"
proof -
  define srt where "srt = sort_key (\<lambda>i. - (input ! i)) [0..<length input]"
  have sel: "sel = take k srt"
    by (simp add: sel_def srt_def)
  have d: "distinct srt" and s: "set srt = {0..<length input}" and l: "length srt = length input"
    by (simp_all add: srt_def)
  have so: "sorted (map (\<lambda>i. - (input ! i)) srt)"
    unfolding srt_def by (rule sorted_sort_key)
  show "distinct sel" using d by (simp add: sel)
  show "length sel = k" using l assms(1) by (simp add: sel)
  show "set sel \<subseteq> {..<length input}"
    using set_take_subset [of k srt] s by (auto simp: sel)
  have split: "srt = take k srt @ drop k srt"
    by simp
  have "sorted (map (\<lambda>i. - (input ! i)) (take k srt) @ map (\<lambda>i. - (input ! i)) (drop k srt))"
    using so by (metis split map_append)
  then have le: "\<forall>i\<in>set (take k srt). \<forall>j\<in>set (drop k srt). - (input ! i) \<le> - (input ! j)"
    by (simp add: sorted_append)
  show "\<forall>i\<in>set sel. \<forall>j<length input. j \<notin> set sel \<longrightarrow> input ! j \<le> input ! i"
  proof (intro ballI allI impI)
    fix i j assume i: "i \<in> set sel" and j: "j < length input" "j \<notin> set sel"
    have "j \<in> set srt" using j(1) s by simp
    then have "j \<in> set (take k srt) \<union> set (drop k srt)"
      by (metis split set_append)
    then have "j \<in> set (drop k srt)" using j(2) sel by simp
    then have "- (input ! i) \<le> - (input ! j)" using le i sel by simp
    then show "input ! j \<le> input ! i" by simp
  qed
qed

text \<open>
  Claim C5. On a batch of at least \<open>k\<close> scores with a reward for each score and at least
  one nonzero reward, there is a selection \<open>sel\<close> of \<open>k\<close> distinct examples, none of
  which scores below an example left out (the \<open>k\<close> highest-scoring examples), such that
  \<open>topk_recall\<close> is the number of nonzero rewards in \<open>sel\<close> divided by the number of
  nonzero rewards in the batch, and \<open>topk_positive\<close> is the number of nonzero rewards in
  \<open>sel\<close> divided by \<open>k\<close> (the float division \<open>0 / 0\<close> when \<open>k = 0\<close>). For rewards
  \<open>[1, 0, 1, 0]\<close>, \<open>k = 2\<close> and scores ranking the examples \<open>[2, 0, 1, 3]\<close>, both are 1;
  for \<open>k = 1\<close> and scores ranking them \<open>[1, 2, 0, 3]\<close>, both are 0.
\<close>

theorem topk_metrics:
  assumes k: "0 \<le> k" "k \<le> int (length output)"
    and len: "length reward = length output"
    and nz: "\<exists>r\<in>set reward. r \<noteq> 0"
  shows "\<exists>sel. distinct sel \<and> int (length sel) = k \<and> set sel \<subseteq> {..<length output} \<and>
           (\<forall>i\<in>set sel. \<forall>j<length output. j \<notin> set sel \<longrightarrow> output ! j \<le> output ! i) \<and>
           topk_recall output reward k =
             Inr (Finite (real (card {i \<in> set sel. reward ! i \<noteq> 0}) /
                          real (card {i. i < length reward \<and> reward ! i \<noteq> 0}))) \<and>
           topk_positive output reward k =
             Inr (if k = 0 then NonFinite
                  else Finite (real (card {i \<in> set sel. reward ! i \<noteq> 0}) / real_of_int k))"
proof -
  define sel where "sel = take (nat k) (sort_key (\<lambda>i. - (output ! i)) [0..<length output])"
  have kn: "nat k \<le> length output" using k by simp
  note t = top_indices [OF kn, folded sel_def]
  have tk: "top_k output k = Inr (map (\<lambda>i. output ! i) sel, sel)"
    using k by (simp add: top_k_Inr sel_def)
  have g: "tf_gather reward sel = Inr (map (\<lambda>i. reward ! i) sel)"
    using t(3) len by (auto simp: tf_gather_def list_all_iff)
  have pos: "0 < count_nonzero reward"
    using nz by (rule count_nonzero_pos)
  have hits: "count_nonzero (map (\<lambda>i. reward ! i) sel) = card {i \<in> set sel. reward ! i \<noteq> 0}"
    using t(1) by (rule count_nonzero_gather)
  have "topk_recall output reward k =
      Inr (Finite (real (count_nonzero (map (\<lambda>i. reward ! i) sel)) / real (count_nonzero reward)))"
    using pos by (simp add: topk_recall_def tk g truediv_def)
  then have recall: "topk_recall output reward k =
      Inr (Finite (real (card {i \<in> set sel. reward ! i \<noteq> 0}) /
                   real (card {i. i < length reward \<and> reward ! i \<noteq> 0})))"
    unfolding hits count_nonzero_card [of reward] .
  have positive: "topk_positive output reward k =
      Inr (if k = 0 then NonFinite
           else Finite (real (card {i \<in> set sel. reward ! i \<noteq> 0}) / real_of_int k))"
    using pos by (simp add: topk_positive_def tk g hits truediv_def)
  have "int (length sel) = k" using t(2) k by simp
  with t recall positive show ?thesis by blast
qed

theorem topk_metrics_witness:
  "(\<exists>sel. distinct sel \<and> int (length sel) = 2 \<and>
      topk_recall [3 / 10, 2 / 10, 4 / 10, 1 / 10] [1, 0, 1, 0] 2 =
        Inr (Finite (real (card {i \<in> set sel. [1, 0, 1, 0 :: real] ! i \<noteq> 0}) /
             real (card {i. i < length [1, 0, 1, 0 :: real] \<and> [1, 0, 1, 0 :: real] ! i \<noteq> 0})))) \<and>
   topk_recall [3 / 10, 2 / 10, 4 / 10, 1 / 10] [1, 0, 1, 0] 2 = Inr (Finite 1) \<and>
   topk_positive [3 / 10, 2 / 10, 4 / 10, 1 / 10] [1, 0, 1, 0] 2 = Inr (Finite 1) \<and>
   topk_recall [2 / 10, 4 / 10, 3 / 10, 1 / 10] [1, 0, 1, 0] 1 = Inr (Finite 0) \<and>
   topk_positive [2 / 10, 4 / 10, 3 / 10, 1 / 10] [1, 0, 1, 0] 1 = Inr (Finite 0)"
proof (intro conjI)
  have h: "(0::int) \<le> 2" "(2::int) \<le> int (length [3 / 10, 2 / 10, 4 / 10, 1 / 10 :: real])"
    "length [1, 0, 1, 0 :: real] = length [3 / 10, 2 / 10, 4 / 10, 1 / 10 :: real]"
    "\<exists>r\<in>set [1, 0, 1, 0 :: real]. r \<noteq> 0"
    by simp_all
  show "\<exists>sel. distinct sel \<and> int (length sel) = 2 \<and>
      topk_recall [3 / 10, 2 / 10, 4 / 10, 1 / 10] [1, 0, 1, 0] 2 =
        Inr (Finite (real (card {i \<in> set sel. [1, 0, 1, 0 :: real] ! i \<noteq> 0}) /
             real (card {i. i < length [1, 0, 1, 0 :: real] \<and> [1, 0, 1, 0 :: real] ! i \<noteq> 0})))"
    using topk_metrics [OF h] by blast
qed (simp_all add: topk_recall_def topk_positive_def top_k_def tf_gather_def count_nonzero_def
       truediv_def upt_rec)

subsection \<open>The reward weights\<close>

text \<open>
  The claim as stated fails: the weights \<open>0.5, 0.2, 0.1, 0.2, 0\<close> sum to 1, not to 0.8.
\<close>

theorem label_weights_sum:
  "sum_list label_weights = 1 \<and> sum_list label_weights \<noteq> 8 / 10"
  by (simp add: label_weights_def)

text \<open>
  Claim C7, as the code has it. The fixed label weight vector sums to 1, and the weighted
  combination of the decoded label vector \<open>[1, 1, 0, 0, 0]\<close> (click and like) is
  \<open>0.5 + 0.2 = 0.7\<close>.
\<close>

theorem weight_labels_click_like:
  "sum_list label_weights = 1 \<and> weight_labels [1, 1, 0, 0, 0] = Inr (7 / 10)"
  by (simp add: label_weights_def weight_labels_def)

subsection \<open>The bucket state across epochs\<close>

lemma and_then_assoc:
  "and_then (and_then r f) g = and_then r (\<lambda>v. and_then (f v) g)"
  by (cases r) simp_all

lemma epoch_arrays_fresh:
  "0 \<le> n \<Longrightarrow> epoch_arrays n beta = Inr (replicate (nat n) 0, replicate (nat n) beta)"
  by (simp add: epoch_arrays_def)

lemma epoch_start_streaming:
  "epoch_start True n beta st =
     and_then (epoch_arrays n beta) (\<lambda>ab. Inr (st\<lparr>arrays := Some ab, total_loss := 0, step := 1\<rparr>))"
  by (cases "epoch_arrays n beta") (simp_all add: epoch_start_def)

lemma epoch_start_fresh:
  "0 \<le> n \<Longrightarrow> epoch_start True n beta st =
     Inr (st\<lparr>arrays := Some (replicate (nat n) 0, replicate (nat n) beta),
             total_loss := 0, step := 1\<rparr>)"
  by (simp add: epoch_start_streaming epoch_arrays_fresh)

lemma epoch_start_forgets:
  "epoch_start True n beta (st\<lparr>arrays := arr\<rparr>) = epoch_start True n beta st"
  by (simp add: epoch_start_streaming)

lemma run_epoch_forgets:
  "run_epoch cand_ids train_step epoch_end True n beta batches (st\<lparr>arrays := arr\<rparr>) =
   run_epoch cand_ids train_step epoch_end True n beta batches st"
  by (simp add: run_epoch_def epoch_start_forgets)

lemma run_epoch_fresh:
  "0 \<le> n \<Longrightarrow> run_epoch cand_ids train_step epoch_end True n beta batches st =
     and_then (batch_loop cand_ids train_step True n batches
                 (st\<lparr>arrays := Some (replicate (nat n) 0, replicate (nat n) beta),
                     total_loss := 0, step := 1\<rparr>)) (\<lambda>st1.
     and_then (epoch_end st1) (\<lambda>m. Inr (st1\<lparr>towers := m\<rparr>)))"
  by (simp add: run_epoch_def epoch_start_fresh)

lemma epoch_loop_append:
  "epoch_loop cand_ids train_step epoch_end streaming n beta (before @ later) st =
     and_then (epoch_loop cand_ids train_step epoch_end streaming n beta before st)
       (epoch_loop cand_ids train_step epoch_end streaming n beta later)"
proof (induction before arbitrary: st)
  case Nil
  show ?case by simp
next
  case (Cons batches before)
  show ?case
    by (cases "run_epoch cand_ids train_step epoch_end streaming n beta batches st")
      (simp_all add: Cons.IH)
qed

lemma train_model_epoch:
  assumes n: "0 \<le> n" and e: "e < nat epochs"
  shows "train_model cand_ids train_step epoch_end dataset epochs n True beta m =
     and_then (train_model cand_ids train_step epoch_end dataset (int e) n True beta m) (\<lambda>st.
     and_then (batch_loop cand_ids train_step True n (dataset e)
                 (st\<lparr>arrays := Some (replicate (nat n) 0, replicate (nat n) beta),
                     total_loss := 0, step := 1\<rparr>)) (\<lambda>st1.
     and_then (epoch_end st1) (\<lambda>m'.
       epoch_loop cand_ids train_step epoch_end True n beta
         (map dataset [Suc e..<nat epochs]) (st1\<lparr>towers := m'\<rparr>))))"
proof -
  have "[0..<nat epochs] = [0..<e] @ e # [Suc e..<nat epochs]"
    using e by (metis less_imp_le_nat upt_add_eq_append upt_conv_Cons le_add_diff_inverse add_0 zero_le)
  then have split: "map dataset [0..<nat epochs] =
      map dataset [0..<e] @ dataset e # map dataset [Suc e..<nat epochs]"
    by simp
  have step: "epoch_loop cand_ids train_step epoch_end True n beta
        (dataset e # map dataset [Suc e..<nat epochs]) =
      (\<lambda>st. and_then (batch_loop cand_ids train_step True n (dataset e)
                 (st\<lparr>arrays := Some (replicate (nat n) 0, replicate (nat n) beta),
                     total_loss := 0, step := 1\<rparr>)) (\<lambda>st1.
        and_then (epoch_end st1) (\<lambda>m'.
          epoch_loop cand_ids train_step epoch_end True n beta
            (map dataset [Suc e..<nat epochs]) (st1\<lparr>towers := m'\<rparr>))))"
    by (rule ext) (simp add: run_epoch_fresh [OF n] and_then_assoc)
  show ?thesis
    unfolding train_model_def split epoch_loop_append step
    by simp
qed

text \<open>
  Claim C9. In streaming mode with a bucket count \<open>n \<ge> 0\<close>, the start of an epoch
  replaces the bucket state, whatever it was, by \<open>array_a\<close> all zeros and \<open>array_b\<close> all
  \<open>beta\<close>, and the epoch runs its batch loop on exactly that state, from step 1. So it is
  for every epoch \<open>e\<close> of \<open>train_model\<close>: the run is the run of the first \<open>e\<close> epochs,
  then the batch loop of epoch \<open>e\<close> on the fresh arrays, whatever state the epochs before
  have left, then the bookkeeping and the later epochs. Hence an epoch, and the epochs from
  any point on, run the same on every bucket state left by the epochs before. The example
  runs two epochs of one batch: both hand the same \<^verbatim>\<open>sampling_p\<close>, \<open>1 / 99.01\<close>, to the
  train step.
\<close>

theorem epoch_state_is_fresh:
  "(0 \<le> n \<longrightarrow>
      epoch_start True n beta st =
        Inr (st\<lparr>arrays := Some (replicate (nat n) 0, replicate (nat n) beta),
                total_loss := 0, step := 1\<rparr>) \<and>
      run_epoch cand_ids train_step epoch_end True n beta batches st =
        and_then (batch_loop cand_ids train_step True n batches
                    (st\<lparr>arrays := Some (replicate (nat n) 0, replicate (nat n) beta),
                        total_loss := 0, step := 1\<rparr>)) (\<lambda>st1.
        and_then (epoch_end st1) (\<lambda>m. Inr (st1\<lparr>towers := m\<rparr>))) \<and>
      (e < nat epochs \<longrightarrow>
         train_model cand_ids train_step epoch_end dataset epochs n True beta m =
           and_then (train_model cand_ids train_step epoch_end dataset (int e) n True beta m)
             (\<lambda>st.
           and_then (batch_loop cand_ids train_step True n (dataset e)
                       (st\<lparr>arrays := Some (replicate (nat n) 0, replicate (nat n) beta),
                           total_loss := 0, step := 1\<rparr>)) (\<lambda>st1.
           and_then (epoch_end st1) (\<lambda>m'.
             epoch_loop cand_ids train_step epoch_end True n beta
               (map dataset [Suc e..<nat epochs]) (st1\<lparr>towers := m'\<rparr>)))))) \<and>
   run_epoch cand_ids train_step epoch_end True n beta batches (st\<lparr>arrays := arr\<rparr>) =
     run_epoch cand_ids train_step epoch_end True n beta batches st \<and>
   epoch_loop cand_ids train_step epoch_end True n beta (batches # later) (st\<lparr>arrays := arr\<rparr>) =
     epoch_loop cand_ids train_step epoch_end True n beta (batches # later) st"
proof (intro conjI impI)
  assume n: "0 \<le> n"
  show "epoch_start True n beta st =
        Inr (st\<lparr>arrays := Some (replicate (nat n) 0, replicate (nat n) beta),
                total_loss := 0, step := 1\<rparr>)"
    using n by (rule epoch_start_fresh)
  show "run_epoch cand_ids train_step epoch_end True n beta batches st =
        and_then (batch_loop cand_ids train_step True n batches
                    (st\<lparr>arrays := Some (replicate (nat n) 0, replicate (nat n) beta),
                        total_loss := 0, step := 1\<rparr>)) (\<lambda>st1.
        and_then (epoch_end st1) (\<lambda>m. Inr (st1\<lparr>towers := m\<rparr>)))"
    using n by (rule run_epoch_fresh)
  assume e: "e < nat epochs"
  show "train_model cand_ids train_step epoch_end dataset epochs n True beta m =
           and_then (train_model cand_ids train_step epoch_end dataset (int e) n True beta m)
             (\<lambda>st.
           and_then (batch_loop cand_ids train_step True n (dataset e)
                       (st\<lparr>arrays := Some (replicate (nat n) 0, replicate (nat n) beta),
                           total_loss := 0, step := 1\<rparr>)) (\<lambda>st1.
           and_then (epoch_end st1) (\<lambda>m'.
             epoch_loop cand_ids train_step epoch_end True n beta
               (map dataset [Suc e..<nat epochs]) (st1\<lparr>towers := m'\<rparr>))))"
    using n e by (rule train_model_epoch)
next
  show "run_epoch cand_ids train_step epoch_end True n beta batches (st\<lparr>arrays := arr\<rparr>) =
     run_epoch cand_ids train_step epoch_end True n beta batches st"
    by (rule run_epoch_forgets)
  show "epoch_loop cand_ids train_step epoch_end True n beta (batches # later) (st\<lparr>arrays := arr\<rparr>) =
     epoch_loop cand_ids train_step epoch_end True n beta (batches # later) st"
    by (simp add: run_epoch_forgets)
qed

lemma one_batch_from_fresh:
  "batch_loop (\<lambda>b. Some (Int32 b)) (\<lambda>inputs sp m. Inr (0, m @ [sp])) True 2 [[1]]
     (st\<lparr>arrays := Some ([0, 0], [100, 100]), total_loss := 0, step := 1\<rparr>) =
   Inr (st\<lparr>arrays := Some ([0, 1], [100, 9901 / 100]),
           towers := towers st @ [Some [Finite (100 / 9901)]], total_loss := 0, step := 2\<rparr>)"
  by (simp add: batch_step_def streaming_estimate_def tf_mod_Inr
      sampling_p_estimation_single_hash_def np_take_def np_put_def norm_index_def truediv_def)

theorem epoch_state_is_fresh_witness:
  "train_model (\<lambda>b. Some (Int32 b)) (\<lambda>inputs sp m. Inr (0, m @ [sp]))
       (\<lambda>st. Inr (towers st)) (\<lambda>e. [[1]]) 2 2 True 100 [] =
     Inr \<lparr>arrays = Some ([0, 1], [100, 9901 / 100]),
          towers = [Some [Finite (100 / 9901)], Some [Finite (100 / 9901)]],
          total_loss = 0, step = 2\<rparr>"
proof -
  have n: "(0::int) \<le> 2" and e: "(1::nat) < nat 2"
    by simp_all
  have unroll: "train_model (\<lambda>b. Some (Int32 b)) (\<lambda>inputs sp m. Inr (0, m @ [sp]))
       (\<lambda>st. Inr (towers st)) (\<lambda>e. [[1]]) 2 2 True 100 [] =
     and_then (train_model (\<lambda>b. Some (Int32 b)) (\<lambda>inputs sp m. Inr (0, m @ [sp]))
       (\<lambda>st. Inr (towers st)) (\<lambda>e. [[1]]) (int 1) 2 True 100 []) (\<lambda>st.
     and_then (batch_loop (\<lambda>b. Some (Int32 b)) (\<lambda>inputs sp m. Inr (0, m @ [sp])) True 2 [[1]]
                 (st\<lparr>arrays := Some (replicate (nat 2) 0, replicate (nat 2) 100),
                     total_loss := 0, step := 1\<rparr>)) (\<lambda>st1.
     and_then (Inr (towers st1)) (\<lambda>m'.
       epoch_loop (\<lambda>b. Some (Int32 b)) (\<lambda>inputs sp m. Inr (0, m @ [sp]))
         (\<lambda>st. Inr (towers st)) True 2 100
         (map (\<lambda>e. [[1]]) [Suc 1..<nat 2]) (st1\<lparr>towers := m'\<rparr>))))"
    using n e epoch_state_is_fresh
      [where n = 2 and e = 1 and epochs = 2 and beta = 100 and m = "[]"
         and cand_ids = "\<lambda>b. Some (Int32 b)"
         and train_step = "\<lambda>inputs sp m. Inr (0, m @ [sp])"
         and epoch_end = "\<lambda>st. Inr (towers st)" and dataset = "\<lambda>e. [[1]]"]
    by blast
  have fresh: "(replicate (nat 2) (0::real), replicate (nat 2) (100::real)) = ([0, 0], [100, 100])"
    by (simp add: numeral_2_eq_2)
  have first: "train_model (\<lambda>b. Some (Int32 b)) (\<lambda>inputs sp m. Inr (0, m @ [sp]))
       (\<lambda>st. Inr (towers st)) (\<lambda>e. [[1]]) (int 1) 2 True 100 [] =
     Inr \<lparr>arrays = Some ([0, 1], [100, 9901 / 100]),
          towers = [Some [Finite (100 / 9901)]], total_loss = 0, step = 2\<rparr>"
    by (simp add: train_model_def run_epoch_def epoch_start_def epoch_arrays_def numeral_2_eq_2
        batch_step_def streaming_estimate_def tf_mod_Inr sampling_p_estimation_single_hash_def
        np_take_def np_put_def norm_index_def truediv_def)
  show ?thesis
    unfolding unroll first and_then.simps fresh one_batch_from_fresh
    by simp
qed

subsection \<open>The streaming step of the batch loop\<close>

text \<open>
  In the loop the indices come from \<open>hash_simple\<close> with the bucket count that is also
  the length of the arrays, so they are valid, and one streaming step keeps the gap
  estimate positive and hands a finite positive \<^verbatim>\<open>sampling_p\<close> to the train step.
\<close>

lemma streaming_estimate_positive:
  assumes n: "0 < n" "n < 2 ^ 31"
    and ids: "cand_ids inputs = Some ids" "castable ids"
    and st: "arrays st = Some (a, b)"
    and len: "length a = nat n" "length b = nat n"
    and pos: "\<forall>v\<in>set b. 0 < v"
    and before: "\<forall>v\<in>set a. v < real (step st)"
  shows "\<exists>a' b' p. streaming_estimate cand_ids n inputs st =
             Inr (st\<lparr>arrays := Some (a', b')\<rparr>, Some p) \<and>
           length a' = nat n \<and> length b' = nat n \<and> (\<forall>v\<in>set b'. 0 < v) \<and>
           (\<forall>v\<in>set a'. v \<le> real (step st)) \<and> (\<forall>q\<in>set p. \<exists>v. q = Finite v \<and> 0 < v)"
proof -
  obtain out where out: "hash_simple ids n = Inr out"
    and vals: "map sint out = map (\<lambda>v. int32_of v mod n) (id_values ids)"
    using hash_simple_Inr [OF n ids(2)] by blast
  have valid: "\<forall>i\<in>set (map sint out). - int (nat n) \<le> i \<and> i < int (nat n)"
  proof
    fix i assume "i \<in> set (map sint out)"
    then obtain v where i: "i = int32_of v mod n"
      unfolding vals by auto
    have ge: "0 \<le> int32_of v mod n" and lt: "int32_of v mod n < n"
      using n by simp_all
    have nn: "int (nat n) = n"
      using n by simp
    show "- int (nat n) \<le> i \<and> i < int (nat n)"
      unfolding nn i using ge lt n by linarith
  qed
  have alpha: "(0::real) < 1 / 100" "(1::real) / 100 \<le> 1"
    by simp_all
  obtain a' b' p where
    r: "sampling_p_estimation_single_hash a b (map sint out) (real (step st)) (1 / 100) =
          Inr (a', b', p)" and
    props: "length a' = nat n" "length b' = nat n" "\<forall>v\<in>set b'. 0 < v"
      "\<forall>v\<in>set a'. v \<le> real (step st)" "\<forall>q\<in>set p. \<exists>v. q = Finite v \<and> 0 < v"
    using estimation_step_positive [OF alpha len pos before valid] by blast
  have "streaming_estimate cand_ids n inputs st = Inr (st\<lparr>arrays := Some (a', b')\<rparr>, Some p)"
    by (simp add: streaming_estimate_def ids(1) out st r)
  with props show ?thesis by blast
qed

end
